theory Spec2Isabelle
  imports Main "HOL-Library.Sublist"
begin

section \<open>The streaming adapter of \<^verbatim>\<open>phi/model/aliyun/aliyun.py\<close>\<close>

text \<open>
  \<^verbatim>\<open>ALIChat.response_stream\<close> pulls chat-completion chunks from \<^verbatim>\<open>invoke_stream\<close>
  and yields one \<^verbatim>\<open>ModelResponse\<close> per non-empty text field of the first choice's
  delta. A local \<^verbatim>\<open>status\<close> string decides where the literal markers are spliced in.
  The model below follows the loop body statement by statement.
\<close>

subsection \<open>Data\<close>

text \<open>
  An attribute of the delta as the two-part test
  \<^verbatim>\<open>hasattr(response_delta, f) and response_delta.f\<close> sees it: the attribute may be
  missing, may hold \<^verbatim>\<open>None\<close>, or may hold a string.
\<close>

datatype attr = NoAttr | NoneVal | Str string

record ChoiceDelta =
  reasoning_content :: attr
  content :: attr

record Choice =
  delta :: ChoiceDelta

text \<open>The usage payload is opaque to the adapter; it stays a type parameter.\<close>

record 'u ChatCompletionChunk =
  choices :: "Choice list"
  usage :: "'u option"

record StreamData =
  response_content :: string
  response_reasoning_content :: "string option"

text \<open>
  The generator has two \<^verbatim>\<open>yield\<close> statements. Each yielded response carries the
  text it was built from; \<open>origin\<close> names the statement that yielded it (line 63 for the
  reasoning block, line 73 for the content block).
\<close>

datatype yield_site = ReasoningYield | ContentYield

datatype ModelResponse = ModelResponse (origin: yield_site) (response_text: string)

text \<open>One entry per call of \<^verbatim>\<open>print\<close>, holding its argument.\<close>

datatype 'u printed = PrintStr string | PrintUsage "'u option"

datatype py_error = IndexError

text \<open>The variables that live across iterations of the loop, and the console.\<close>

record 'u loop_state =
  stream_data :: StreamData
  status :: string
  console :: "'u printed list"

subsection \<open>The loop body\<close>

text \<open>The test \<^verbatim>\<open>hasattr(d, f) and d.f\<close>: true exactly for a non-empty string.\<close>

fun truthy :: "attr \<Rightarrow> bool" where
  "truthy (Str s) = (s \<noteq> [])"
| "truthy NoneVal = False"
| "truthy NoAttr = False"

text \<open>
  Lines 58 to 65. The store into \<^verbatim>\<open>response_delta.reasoning_content\<close> on line 61 is
  read back on lines 62 and 64 only; the chunk is a fresh object for every iteration, so
  the stored value is the local \<open>r1\<close>.
\<close>

definition reasoning_block ::
  "'u loop_state \<Rightarrow> ChoiceDelta \<Rightarrow> 'u loop_state \<times> ModelResponse list" where
  "reasoning_block s d =
     (case reasoning_content d of
        Str r \<Rightarrow>
          if r \<noteq> [] then
            let (st1, r1) = (if status s = [] then (''think'', ''<think>'' @ r)
                             else (status s, r));
                sd1 = (stream_data s)\<lparr>response_reasoning_content := Some r1\<rparr>
            in (s\<lparr>stream_data := sd1, status := st1\<rparr>, [ModelResponse ReasoningYield r1])
          else (s, [])
      | NoneVal \<Rightarrow> (s, [])
      | NoAttr \<Rightarrow> (s, []))"

text \<open>Lines 68 to 73.\<close>

definition content_block ::
  "'u loop_state \<Rightarrow> ChoiceDelta \<Rightarrow> 'u loop_state \<times> ModelResponse list" where
  "content_block s d =
     (case content d of
        Str a \<Rightarrow>
          if a \<noteq> [] then
            let (st1, a1) = (if status s = ''think'' then (''answer'', ''</think>'' @ a)
                             else (status s, a));
                sd1 = (stream_data s)\<lparr>response_content := response_content (stream_data s) @ a1\<rparr>
            in (s\<lparr>stream_data := sd1, status := st1\<rparr>, [ModelResponse ContentYield a1])
          else (s, [])
      | NoneVal \<Rightarrow> (s, [])
      | NoAttr \<Rightarrow> (s, []))"

text \<open>\<^verbatim>\<open>response.choices[0]\<close>: Python raises \<^verbatim>\<open>IndexError\<close> on an empty list.\<close>

fun getitem0 :: "'a list \<Rightarrow> py_error + 'a" where
  "getitem0 [] = Inl IndexError"
| "getitem0 (x # xs) = Inr x"

text \<open>
  One iteration, lines 49 to 73: the new state and the responses yielded during the
  iteration, in order.
\<close>

definition step ::
  "'u loop_state \<Rightarrow> 'u ChatCompletionChunk \<Rightarrow> py_error + ('u loop_state \<times> ModelResponse list)" where
  "step s response =
     (if choices response = [] then
        Inr (s\<lparr>console := console s @ [PrintStr (CHR 0x0A # ''Usage:''),
                                         PrintUsage (usage response)]\<rparr>, [])
      else
        case getitem0 (choices response) of
          Inl e \<Rightarrow> Inl e
        | Inr c \<Rightarrow>
            let response_delta = delta c;
                (s1, ev1) = reasoning_block s response_delta;
                (s2, ev2) = content_block s1 response_delta
            in Inr (s2, ev1 @ ev2))"

text \<open>The \<^verbatim>\<open>for\<close> loop over the chunks that \<^verbatim>\<open>invoke_stream\<close> delivers.\<close>

fun loop ::
  "'u loop_state \<Rightarrow> 'u ChatCompletionChunk list \<Rightarrow> py_error + ('u loop_state \<times> ModelResponse list)" where
  "loop s [] = Inr (s, [])"
| "loop s (response # rest) =
     (case step s response of
        Inl e \<Rightarrow> Inl e
      | Inr (s1, ev) \<Rightarrow>
          (case loop s1 rest of
             Inl e \<Rightarrow> Inl e
           | Inr (s2, evs) \<Rightarrow> Inr (s2, ev @ evs)))"

text \<open>Lines 45 and 46.\<close>

definition initial_state :: "'u loop_state" where
  "initial_state =
     \<lparr>stream_data = \<lparr>response_content = [], response_reasoning_content = None\<rparr>,
      status = [], console = []\<rparr>"

text \<open>
  \<^verbatim>\<open>response_stream\<close>, with the finite sequence of chunks delivered by
  \<^verbatim>\<open>invoke_stream\<close> as its argument.
\<close>

definition response_stream ::
  "'u ChatCompletionChunk list \<Rightarrow> py_error + ('u loop_state \<times> ModelResponse list)" where
  "response_stream chunks = loop initial_state chunks"

subsection \<open>Vocabulary of the properties\<close>

text \<open>The chunk shapes of the scenarios.\<close>

definition reasoning_chunk :: "string \<Rightarrow> 'u ChatCompletionChunk" where
  "reasoning_chunk r =
     \<lparr>choices = [\<lparr>delta = \<lparr>reasoning_content = Str r, content = NoAttr\<rparr>\<rparr>], usage = None\<rparr>"

definition answer_chunk :: "string \<Rightarrow> 'u ChatCompletionChunk" where
  "answer_chunk a =
     \<lparr>choices = [\<lparr>delta = \<lparr>reasoning_content = NoAttr, content = Str a\<rparr>\<rparr>], usage = None\<rparr>"

definition usage_chunk :: "'u \<Rightarrow> 'u ChatCompletionChunk" where
  "usage_chunk u = \<lparr>choices = [], usage = Some u\<rparr>"

text \<open>The texts of the yielded responses, and their concatenation.\<close>

definition texts :: "ModelResponse list \<Rightarrow> string list" where
  "texts evs = map response_text evs"

definition emitted :: "py_error + ('u loop_state \<times> ModelResponse list) \<Rightarrow> ModelResponse list" where
  "emitted res = (case res of Inl e \<Rightarrow> [] | Inr (s, evs) \<Rightarrow> evs)"

text \<open>Whether a chunk carries non-empty reasoning text, or non-empty answer text.\<close>

definition has_reasoning :: "'u ChatCompletionChunk \<Rightarrow> bool" where
  "has_reasoning c =
     (case choices c of [] \<Rightarrow> False | ch # _ \<Rightarrow> truthy (reasoning_content (delta ch)))"

definition has_answer :: "'u ChatCompletionChunk \<Rightarrow> bool" where
  "has_answer c =
     (case choices c of [] \<Rightarrow> False | ch # _ \<Rightarrow> truthy (content (delta ch)))"

subsection \<open>The texts a stream carries\<close>

text \<open>
  The non-empty texts of a chunk as the two tests of the loop body admit them, before any
  marker is added: the reasoning text first, then the answer text, each tagged with the
  statement that will yield it. A chunk without choices carries none.
\<close>

fun field_payload :: "yield_site \<Rightarrow> attr \<Rightarrow> ModelResponse list" where
  "field_payload k (Str t) = (if t \<noteq> [] then [ModelResponse k t] else [])"
| "field_payload k NoneVal = []"
| "field_payload k NoAttr = []"

definition chunk_payloads :: "'u ChatCompletionChunk \<Rightarrow> ModelResponse list" where
  "chunk_payloads c =
     (case choices c of
        [] \<Rightarrow> []
      | ch # _ \<Rightarrow> field_payload ReasoningYield (reasoning_content (delta ch)) @
                 field_payload ContentYield (content (delta ch)))"

definition payloads :: "'u ChatCompletionChunk list \<Rightarrow> ModelResponse list" where
  "payloads chunks = concat (map chunk_payloads chunks)"

definition is_reasoning :: "ModelResponse \<Rightarrow> bool" where
  "is_reasoning p = (origin p = ReasoningYield)"

definition is_answer :: "ModelResponse \<Rightarrow> bool" where
  "is_answer p = (origin p = ContentYield)"

text \<open>
  The loop read on that sequence of texts: what one text does to \<^verbatim>\<open>status\<close>, the
  text as it is yielded, and both along a whole sequence. The lemmas
  \<open>step_relay\<close> and \<open>loop_relay\<close> below show that \<open>step\<close> and \<open>loop\<close> compute exactly this.
\<close>

fun next_status :: "string \<Rightarrow> yield_site \<Rightarrow> string" where
  "next_status st ReasoningYield = (if st = [] then ''think'' else st)"
| "next_status st ContentYield = (if st = ''think'' then ''answer'' else st)"

fun marked :: "string \<Rightarrow> ModelResponse \<Rightarrow> ModelResponse" where
  "marked st (ModelResponse ReasoningYield t) =
     ModelResponse ReasoningYield (if st = [] then ''<think>'' @ t else t)"
| "marked st (ModelResponse ContentYield t) =
     ModelResponse ContentYield (if st = ''think'' then ''</think>'' @ t else t)"

fun relay :: "string \<Rightarrow> ModelResponse list \<Rightarrow> ModelResponse list" where
  "relay st [] = []"
| "relay st (p # ps) = marked st p # relay (next_status st (origin p)) ps"

fun status_after :: "string \<Rightarrow> ModelResponse list \<Rightarrow> string" where
  "status_after st [] = st"
| "status_after st (p # ps) = status_after (next_status st (origin p)) ps"

text \<open>
  The transcript a consumer rebuilds by concatenating the yielded texts, and the three
  stretches of carried text it is made of: the answer text that precedes all reasoning
  text, the reasoning text from its first character up to the next answer text, and all
  text from that answer text on.
\<close>

definition transcript :: "'u ChatCompletionChunk list \<Rightarrow> string" where
  "transcript chunks = concat (texts (emitted (response_stream chunks)))"

definition lead_in :: "'u ChatCompletionChunk list \<Rightarrow> string" where
  "lead_in chunks = concat (texts (takeWhile is_answer (payloads chunks)))"

definition thinking :: "'u ChatCompletionChunk list \<Rightarrow> string" where
  "thinking chunks =
     concat (texts (takeWhile is_reasoning (dropWhile is_answer (payloads chunks))))"

definition answering :: "'u ChatCompletionChunk list \<Rightarrow> string" where
  "answering chunks =
     concat (texts (dropWhile is_reasoning (dropWhile is_answer (payloads chunks))))"

text \<open>
  The number of positions of \<open>s\<close> at which \<open>pat\<close> occurs.
\<close>

fun occurrences :: "'a list \<Rightarrow> 'a list \<Rightarrow> nat" where
  "occurrences pat [] = (if pat = [] then 1 else 0)"
| "occurrences pat (c # s) = (if prefix pat (c # s) then 1 else 0) + occurrences pat s"

text \<open>
  The three values \<^verbatim>\<open>status\<close> takes, in the order the loop moves through them: the
  empty string (nothing started), \<^verbatim>\<open>"think"\<close> (reasoning) and \<^verbatim>\<open>"answer"\<close>
  (answering).
\<close>

definition phase_rank :: "string \<Rightarrow> nat" where
  "phase_rank st = (if st = [] then 0 else if st = ''think'' then 1 else 2)"

text \<open>
  The text of the latest response yielded by the reasoning block, starting from \<open>cur\<close>.
\<close>

fun latest_reasoning :: "string option \<Rightarrow> ModelResponse list \<Rightarrow> string option" where
  "latest_reasoning cur [] = cur"
| "latest_reasoning cur (e # es) =
     latest_reasoning (if origin e = ReasoningYield then Some (response_text e) else cur) es"

section \<open>The loop computes the relay of the carried texts\<close>

lemma relay_append: "relay st (ps @ qs) = relay st ps @ relay (status_after st ps) qs"
  by (induction ps arbitrary: st) auto

lemma status_after_append: "status_after st (ps @ qs) = status_after (status_after st ps) qs"
  by (induction ps arbitrary: st) auto

lemma reasoning_block_relay:
  "snd (reasoning_block s d) = relay (status s) (field_payload ReasoningYield (reasoning_content d))"
  by (cases "reasoning_content d") (auto simp: reasoning_block_def)

lemma reasoning_block_status:
  "status (fst (reasoning_block s d)) =
     status_after (status s) (field_payload ReasoningYield (reasoning_content d))"
  by (cases "reasoning_content d") (auto simp: reasoning_block_def)

lemma content_block_relay:
  "snd (content_block s d) = relay (status s) (field_payload ContentYield (content d))"
  by (cases "content d") (auto simp: content_block_def)

lemma content_block_status:
  "status (fst (content_block s d)) =
     status_after (status s) (field_payload ContentYield (content d))"
  by (cases "content d") (auto simp: content_block_def)

text \<open>
  An iteration never raises: with an empty \<^verbatim>\<open>choices\<close> it prints and continues, and
  otherwise the first choice exists.
\<close>

lemma step_total:
  "step s c = Inr (if choices c = [] then
        (s\<lparr>console := console s @ [PrintStr (CHR 0x0A # ''Usage:''), PrintUsage (usage c)]\<rparr>, [])
      else (fst (content_block (fst (reasoning_block s (delta (hd (choices c))))) (delta (hd (choices c)))),
            snd (reasoning_block s (delta (hd (choices c)))) @
            snd (content_block (fst (reasoning_block s (delta (hd (choices c))))) (delta (hd (choices c))))))"
  by (cases "choices c") (simp_all add: step_def Let_def case_prod_beta)

lemma step_relay:
  "\<exists>s'. step s c = Inr (s', relay (status s) (chunk_payloads c)) \<and>
        status s' = status_after (status s) (chunk_payloads c)"
  by (cases "choices c")
     (auto simp: step_total chunk_payloads_def relay_append status_after_append
        reasoning_block_relay reasoning_block_status content_block_relay content_block_status)

lemma payloads_append: "payloads (xs @ ys) = payloads xs @ payloads ys"
  by (simp add: payloads_def)

lemma payloads_Cons: "payloads (c # cs) = chunk_payloads c @ payloads cs"
  by (simp add: payloads_def)

lemma payloads_member:
  "c \<in> set cs \<Longrightarrow> p \<in> set (chunk_payloads c) \<Longrightarrow> p \<in> set (payloads cs)"
  by (auto simp: payloads_def)

lemma loop_relay:
  "\<exists>s'. loop s chunks = Inr (s', relay (status s) (payloads chunks)) \<and>
        status s' = status_after (status s) (payloads chunks)"
proof (induction chunks arbitrary: s)
  case Nil
  show ?case by (simp add: payloads_def)
next
  case (Cons c chunks)
  obtain s1 where s1: "step s c = Inr (s1, relay (status s) (chunk_payloads c))"
      "status s1 = status_after (status s) (chunk_payloads c)"
    using step_relay by blast
  obtain s2 where s2: "loop s1 chunks = Inr (s2, relay (status s1) (payloads chunks))"
      "status s2 = status_after (status s1) (payloads chunks)"
    using Cons.IH by blast
  have "payloads (c # chunks) = chunk_payloads c @ payloads chunks"
    by (simp add: payloads_def)
  with s1 s2 show ?case
    by (simp add: relay_append status_after_append)
qed

lemma loop_append:
  "loop s xs = Inr (s1, e1) \<Longrightarrow> loop s1 ys = Inr (s2, e2) \<Longrightarrow>
     loop s (xs @ ys) = Inr (s2, e1 @ e2)"
proof (induction xs arbitrary: s e1)
  case Nil
  then show ?case by simp
next
  case (Cons x xs)
  from Cons.prems(1) obtain sx ex e1' where
    x: "step s x = Inr (sx, ex)" "loop sx xs = Inr (s1, e1')" "e1 = ex @ e1'"
    by (auto split: sum.splits prod.splits)
  from Cons.IH [OF x(2) Cons.prems(2)] x show ?case by simp
qed

lemma emitted_response_stream:
  "emitted (response_stream chunks) = relay [] (payloads chunks)"
proof -
  obtain s' where "loop (initial_state :: 'a loop_state) chunks
      = Inr (s', relay (status (initial_state :: 'a loop_state)) (payloads chunks))"
    using loop_relay by blast
  then show ?thesis
    by (simp add: response_stream_def emitted_def initial_state_def)
qed

section \<open>Shape of the relayed texts\<close>

lemma not_is_answer: "(\<not> is_answer p) = is_reasoning p"
  by (cases p; cases "origin p") (auto simp: is_answer_def is_reasoning_def)

lemma relay_answer: "relay ''answer'' ps = ps"
proof (induction ps)
  case Nil
  show ?case by simp
next
  case (Cons p ps)
  then show ?case by (cases p; cases "origin p") auto
qed

lemma status_after_answer: "status_after ''answer'' ps = ''answer''"
proof (induction ps)
  case Nil
  show ?case by simp
next
  case (Cons p ps)
  then show ?case by (cases p; cases "origin p") auto
qed

lemma relay_think:
  "concat (texts (relay ''think'' ps)) =
     concat (texts (takeWhile is_reasoning ps)) @
     (if dropWhile is_reasoning ps = [] then []
      else ''</think>'' @ concat (texts (dropWhile is_reasoning ps)))"
proof (induction ps)
  case Nil
  show ?case by (simp add: texts_def)
next
  case (Cons p ps)
  then show ?case
    by (cases p; cases "origin p")
       (auto simp: texts_def is_reasoning_def relay_answer)
qed

lemma relay_initial:
  "concat (texts (relay [] ps)) =
     concat (texts (takeWhile is_answer ps)) @
     (if dropWhile is_answer ps = [] then []
      else ''<think>'' @ concat (texts (relay ''think'' (dropWhile is_answer ps))))"
proof (induction ps)
  case Nil
  show ?case by (simp add: texts_def)
next
  case (Cons p ps)
  then show ?case
    by (cases p; cases "origin p")
       (auto simp: texts_def is_answer_def)
qed

lemma transcript_shape:
  "transcript chunks =
     lead_in chunks @
     (if dropWhile is_answer (payloads chunks) = [] then []
      else ''<think>'' @ thinking chunks @
        (if dropWhile is_reasoning (dropWhile is_answer (payloads chunks)) = [] then []
         else ''</think>'' @ answering chunks))"
  by (simp add: transcript_def emitted_response_stream relay_initial relay_think
      lead_in_def thinking_def answering_def)

lemma relay_only_answers:
  "\<forall>p\<in>set ps. is_answer p \<Longrightarrow> relay [] ps = ps \<and> status_after [] ps = []"
proof (induction ps)
  case Nil
  show ?case by simp
next
  case (Cons p ps)
  then show ?case by (cases p; cases "origin p") (auto simp: is_answer_def)
qed

lemma field_payload_nonempty: "p \<in> set (field_payload k f) \<Longrightarrow> response_text p \<noteq> []"
  by (cases f) (auto split: if_splits)

lemma field_payload_origin: "p \<in> set (field_payload k f) \<Longrightarrow> origin p = k"
  by (cases f) (auto split: if_splits)

lemma field_payload_falsy: "\<not> truthy f \<Longrightarrow> field_payload k f = []"
  by (cases f) auto

lemma payloads_nonempty: "p \<in> set (payloads chunks) \<Longrightarrow> response_text p \<noteq> []"
  by (auto simp: payloads_def chunk_payloads_def split: list.splits
      dest: field_payload_nonempty)

lemma concat_texts_nonempty:
  assumes "ps \<noteq> []" "\<And>p. p \<in> set ps \<Longrightarrow> response_text p \<noteq> []"
  shows "concat (texts ps) \<noteq> []"
  using assms by (cases ps) (auto simp: texts_def)

lemma no_reasoning_payloads:
  assumes "\<forall>c\<in>set chunks. \<not> has_reasoning c"
  shows "\<forall>p\<in>set (payloads chunks). is_answer p"
proof
  fix p assume "p \<in> set (payloads chunks)"
  then obtain c where c: "c \<in> set chunks" "p \<in> set (chunk_payloads c)"
    by (auto simp: payloads_def)
  with assms have "\<not> has_reasoning c" by blast
  with c(2) show "is_answer p"
    by (auto simp: has_reasoning_def chunk_payloads_def is_answer_def field_payload_falsy
        split: list.splits dest: field_payload_origin)
qed

lemma has_reasoning_payload:
  "has_reasoning c \<Longrightarrow> \<exists>r qs. chunk_payloads c = ModelResponse ReasoningYield r # qs"
  unfolding has_reasoning_def chunk_payloads_def
  by (cases "choices c"; cases "reasoning_content (delta (hd (choices c)))") auto

lemma has_answer_payload:
  "has_answer c \<Longrightarrow> \<exists>a qs. chunk_payloads c = qs @ [ModelResponse ContentYield a]"
  unfolding has_answer_def chunk_payloads_def
  by (cases "choices c"; cases "content (delta (hd (choices c)))") auto

lemma has_both_payload:
  "has_reasoning c \<Longrightarrow> has_answer c \<Longrightarrow>
     \<exists>r a. chunk_payloads c = [ModelResponse ReasoningYield r, ModelResponse ContentYield a]"
  unfolding has_reasoning_def has_answer_def chunk_payloads_def
  by (cases "choices c"; cases "reasoning_content (delta (hd (choices c)))";
      cases "content (delta (hd (choices c)))") auto

text \<open>A reasoning text with an answer text somewhere behind it.\<close>

lemma reasoning_then_answer_payloads:
  assumes "i \<le> j" "j < length chunks" "has_reasoning (chunks ! i)" "has_answer (chunks ! j)"
  shows "\<exists>X r W a. payloads chunks = X @ ModelResponse ReasoningYield r # W \<and>
           ModelResponse ContentYield a \<in> set W"
proof -
  from assms have i: "i < length chunks" by simp
  have split: "payloads chunks =
      payloads (take i chunks) @ chunk_payloads (chunks ! i) @ payloads (drop (Suc i) chunks)"
    using id_take_nth_drop [OF i] by (metis payloads_append payloads_Cons)
  show ?thesis
  proof (cases "i = j")
    case True
    with assms obtain r a where
      "chunk_payloads (chunks ! i) = [ModelResponse ReasoningYield r, ModelResponse ContentYield a]"
      using has_both_payload by blast
    with split show ?thesis by fastforce
  next
    case False
    with assms have ij: "Suc i \<le> j" by simp
    with assms have "drop (Suc i) chunks ! (j - Suc i) = chunks ! j"
      and "j - Suc i < length (drop (Suc i) chunks)"
      by simp_all
    then have "chunks ! j \<in> set (drop (Suc i) chunks)"
      by (metis nth_mem)
    moreover obtain a qs where "chunk_payloads (chunks ! j) = qs @ [ModelResponse ContentYield a]"
      using has_answer_payload [OF assms(4)] by blast
    ultimately have a: "ModelResponse ContentYield a \<in> set (payloads (drop (Suc i) chunks))"
      by (intro payloads_member [of "chunks ! j"]) simp_all
    obtain r qs' where "chunk_payloads (chunks ! i) = ModelResponse ReasoningYield r # qs'"
      using has_reasoning_payload [OF assms(3)] by blast
    with split a show ?thesis by fastforce
  qed
qed

lemma dropWhile_keeps_tail:
  assumes "\<not> P x"
  shows "\<exists>X'. dropWhile P (X @ x # W) = X' @ x # W"
  using assms by (induction X) auto

lemma reasoning_then_answer_runs:
  assumes "ps = X @ ModelResponse ReasoningYield r # W" "ModelResponse ContentYield a \<in> set W"
  shows "dropWhile is_answer ps \<noteq> [] \<and> takeWhile is_reasoning (dropWhile is_answer ps) \<noteq> [] \<and>
         dropWhile is_reasoning (dropWhile is_answer ps) \<noteq> []"
proof -
  have na: "\<not> is_answer (ModelResponse ReasoningYield r)" by (simp add: is_answer_def)
  obtain X' where X': "dropWhile is_answer ps = X' @ ModelResponse ReasoningYield r # W"
    using dropWhile_keeps_tail [of is_answer "ModelResponse ReasoningYield r" X W] na assms(1)
    by blast
  have hd: "is_reasoning (hd (dropWhile is_answer ps))"
    using X' hd_dropWhile [of is_answer ps] by (simp add: not_is_answer)
  from X' have ne: "dropWhile is_answer ps \<noteq> []" by simp
  from ne hd have "takeWhile is_reasoning (dropWhile is_answer ps) \<noteq> []"
    by (cases "dropWhile is_answer ps") auto
  moreover have "\<not> is_reasoning (ModelResponse ContentYield a)" by (simp add: is_reasoning_def)
  with X' assms(2) have "dropWhile is_reasoning (dropWhile is_answer ps) \<noteq> []"
    by auto
  ultimately show ?thesis using ne by simp
qed

section \<open>Counting marker occurrences\<close>

text \<open>
  Both markers begin with \<open><\<close> and contain it nowhere else, so no occurrence of a marker
  can run from the text before an inserted marker into that marker.
\<close>

lemma straddle_prefix:
  assumes "x \<notin> set (tl pat)" "Z \<noteq> []"
  shows "prefix pat (Z @ x # R) = prefix pat Z"
proof
  assume "prefix pat (Z @ x # R)"
  then consider "prefix pat Z" | us where "pat = Z @ us" "prefix us (x # R)"
    by (auto simp: prefix_append)
  then show "prefix pat Z"
  proof cases
    case 1
    then show ?thesis .
  next
    case 2
    show ?thesis
    proof (cases us)
      case Nil
      with 2 show ?thesis by simp
    next
      case (Cons u us')
      with 2 have "u = x" by simp
      moreover from 2 Cons assms(2) have "u \<in> set (tl pat)" by (cases Z) auto
      ultimately show ?thesis using assms(1) by simp
    qed
  qed
next
  assume "prefix pat Z"
  then show "prefix pat (Z @ x # R)" by (rule prefix_prefix)
qed

lemma occurrences_append_head:
  assumes "x \<notin> set (tl pat)" "pat \<noteq> []"
  shows "occurrences pat (X @ x # R) = occurrences pat X + occurrences pat (x # R)"
proof (induction X)
  case Nil
  from assms(2) show ?case by simp
next
  case (Cons c X)
  have "prefix pat ((c # X) @ x # R) = prefix pat (c # X)"
    using assms(1) by (rule straddle_prefix) simp
  with Cons show ?case by simp
qed

lemma occurrences_open_open:
  "occurrences ''<think>'' (''<think>'' @ Y) = 1 + occurrences ''<think>'' Y"
  by simp

lemma occurrences_open_close:
  "occurrences ''<think>'' (''</think>'' @ Y) = occurrences ''<think>'' Y"
  by simp

lemma occurrences_close_open:
  "occurrences ''</think>'' (''<think>'' @ Y) = occurrences ''</think>'' Y"
  by simp

lemma occurrences_close_close:
  "occurrences ''</think>'' (''</think>'' @ Y) = 1 + occurrences ''</think>'' Y"
  by simp

lemma occurrences_open_shape:
  "occurrences ''<think>'' (A @ ''<think>'' @ B @ ''</think>'' @ C) =
     1 + occurrences ''<think>'' A + occurrences ''<think>'' B + occurrences ''<think>'' C"
proof -
  have "occurrences ''<think>'' (A @ ''<think>'' @ B @ ''</think>'' @ C) =
        occurrences ''<think>'' A + occurrences ''<think>'' (''<think>'' @ B @ ''</think>'' @ C)"
    using occurrences_append_head [of "CHR ''<''" "''<think>''" A "''think>'' @ B @ ''</think>'' @ C"]
    by simp
  also have "occurrences ''<think>'' (''<think>'' @ B @ ''</think>'' @ C) =
        1 + occurrences ''<think>'' (B @ ''</think>'' @ C)"
    by (rule occurrences_open_open)
  also have "occurrences ''<think>'' (B @ ''</think>'' @ C) =
        occurrences ''<think>'' B + occurrences ''<think>'' (''</think>'' @ C)"
    using occurrences_append_head [of "CHR ''<''" "''<think>''" B "''/think>'' @ C"]
    by simp
  also have "occurrences ''<think>'' (''</think>'' @ C) = occurrences ''<think>'' C"
    by (rule occurrences_open_close)
  finally show ?thesis by simp
qed

lemma occurrences_close_shape:
  "occurrences ''</think>'' (A @ ''<think>'' @ B @ ''</think>'' @ C) =
     1 + occurrences ''</think>'' A + occurrences ''</think>'' B + occurrences ''</think>'' C"
proof -
  have "occurrences ''</think>'' (A @ ''<think>'' @ B @ ''</think>'' @ C) =
        occurrences ''</think>'' A + occurrences ''</think>'' (''<think>'' @ B @ ''</think>'' @ C)"
    using occurrences_append_head [of "CHR ''<''" "''</think>''" A "''think>'' @ B @ ''</think>'' @ C"]
    by simp
  also have "occurrences ''</think>'' (''<think>'' @ B @ ''</think>'' @ C) =
        occurrences ''</think>'' (B @ ''</think>'' @ C)"
    by (rule occurrences_close_open)
  also have "occurrences ''</think>'' (B @ ''</think>'' @ C) =
        occurrences ''</think>'' B + occurrences ''</think>'' (''</think>'' @ C)"
    using occurrences_append_head [of "CHR ''<''" "''</think>''" B "''/think>'' @ C"]
    by simp
  also have "occurrences ''</think>'' (''</think>'' @ C) = 1 + occurrences ''</think>'' C"
    by (rule occurrences_close_close)
  finally show ?thesis by simp
qed

section \<open>The stored stream data\<close>

lemma latest_reasoning_append:
  "latest_reasoning cur (xs @ ys) = latest_reasoning (latest_reasoning cur xs) ys"
  by (induction xs arbitrary: cur) auto

lemma latest_reasoning_last:
  "latest_reasoning cur evs =
     (if filter is_reasoning evs = [] then cur
      else Some (response_text (last (filter is_reasoning evs))))"
  by (induction evs arbitrary: cur) (auto simp: is_reasoning_def)

lemma reasoning_block_latest:
  "response_reasoning_content (stream_data (fst (reasoning_block s d))) =
     latest_reasoning (response_reasoning_content (stream_data s)) (snd (reasoning_block s d))"
  by (cases "reasoning_content d") (auto simp: reasoning_block_def)

lemma content_block_latest:
  "response_reasoning_content (stream_data (fst (content_block s d))) =
     latest_reasoning (response_reasoning_content (stream_data s)) (snd (content_block s d))"
  by (cases "content d") (auto simp: content_block_def)

lemma reasoning_block_answers:
  "response_content (stream_data (fst (reasoning_block s d))) =
     response_content (stream_data s) @
     concat (texts (filter is_answer (snd (reasoning_block s d))))"
  by (cases "reasoning_content d") (auto simp: reasoning_block_def texts_def is_answer_def)

lemma content_block_answers:
  "response_content (stream_data (fst (content_block s d))) =
     response_content (stream_data s) @
     concat (texts (filter is_answer (snd (content_block s d))))"
  by (cases "content d") (auto simp: content_block_def texts_def is_answer_def)

lemma step_stream_data:
  "\<exists>s' evs. step s c = Inr (s', evs) \<and>
     response_reasoning_content (stream_data s') =
       latest_reasoning (response_reasoning_content (stream_data s)) evs \<and>
     response_content (stream_data s') =
       response_content (stream_data s) @ concat (texts (filter is_answer evs))"
  by (cases "choices c")
     (simp_all add: step_total texts_def latest_reasoning_append
        reasoning_block_latest content_block_latest
        reasoning_block_answers content_block_answers)

lemma loop_stream_data:
  "\<exists>s' evs. loop s chunks = Inr (s', evs) \<and>
     response_reasoning_content (stream_data s') =
       latest_reasoning (response_reasoning_content (stream_data s)) evs \<and>
     response_content (stream_data s') =
       response_content (stream_data s) @ concat (texts (filter is_answer evs))"
proof (induction chunks arbitrary: s)
  case Nil
  show ?case by (simp add: texts_def)
next
  case (Cons c chunks)
  obtain s1 ev where s1: "step s c = Inr (s1, ev)"
      "response_reasoning_content (stream_data s1) =
         latest_reasoning (response_reasoning_content (stream_data s)) ev"
      "response_content (stream_data s1) =
         response_content (stream_data s) @ concat (texts (filter is_answer ev))"
    using step_stream_data by blast
  obtain s2 evs where s2: "loop s1 chunks = Inr (s2, evs)"
      "response_reasoning_content (stream_data s2) =
         latest_reasoning (response_reasoning_content (stream_data s1)) evs"
      "response_content (stream_data s2) =
         response_content (stream_data s1) @ concat (texts (filter is_answer evs))"
    using Cons.IH by blast
  from s1 s2 show ?case
    by (simp add: latest_reasoning_append texts_def)
qed

lemma answer_accumulated:
  "\<exists>s evs. response_stream chunks = Inr (s, evs) \<and>
     response_content (stream_data s) = concat (texts (filter is_answer evs))"
  using loop_stream_data [of initial_state chunks]
  by (auto simp: response_stream_def initial_state_def)

section \<open>The phase order\<close>

lemma phase_rank_next: "phase_rank st \<le> phase_rank (next_status st k)"
  by (cases k) (auto simp: phase_rank_def)

lemma phase_rank_status_after: "phase_rank st \<le> phase_rank (status_after st ps)"
proof (induction ps arbitrary: st)
  case Nil
  show ?case by simp
next
  case (Cons p ps)
  have "phase_rank st \<le> phase_rank (next_status st (origin p))"
    by (rule phase_rank_next)
  also have "\<dots> \<le> phase_rank (status_after (next_status st (origin p)) ps)"
    by (rule Cons.IH)
  finally show ?case by simp
qed

section \<open>Properties\<close>

text \<open>
  C1. Let a stream contain a chunk with non-empty reasoning text and, in the same chunk
  or a later one, non-empty answer text. Then the transcript is the lead-in answer text,
  the marker \<^verbatim>\<open><think>\<close>, the reasoning text beginning with its first character,
  the marker \<^verbatim>\<open></think>\<close>, and the text from the first answer character after
  reasoning began; the last two stretches are not empty. Each marker is inserted exactly
  once, in that order: a marker occurs in the transcript once more than it occurs in the
  three stretches of carried text, hence exactly once when the carried text holds none.
\<close>

theorem C1_markers_inserted_once:
  assumes "i \<le> j" "j < length chunks" "has_reasoning (chunks ! i)" "has_answer (chunks ! j)"
  shows "transcript chunks =
           lead_in chunks @ ''<think>'' @ thinking chunks @ ''</think>'' @ answering chunks \<and>
         thinking chunks \<noteq> [] \<and> answering chunks \<noteq> [] \<and>
         occurrences ''<think>'' (transcript chunks) =
           1 + occurrences ''<think>'' (lead_in chunks) + occurrences ''<think>'' (thinking chunks)
             + occurrences ''<think>'' (answering chunks) \<and>
         occurrences ''</think>'' (transcript chunks) =
           1 + occurrences ''</think>'' (lead_in chunks) + occurrences ''</think>'' (thinking chunks)
             + occurrences ''</think>'' (answering chunks)"
proof -
  obtain X r W a where ps: "payloads chunks = X @ ModelResponse ReasoningYield r # W"
      "ModelResponse ContentYield a \<in> set W"
    using reasoning_then_answer_payloads [OF assms] by blast
  note runs = reasoning_then_answer_runs [OF ps]
  have shape: "transcript chunks =
           lead_in chunks @ ''<think>'' @ thinking chunks @ ''</think>'' @ answering chunks"
    using runs by (simp add: transcript_shape)
  have "\<And>p. p \<in> set (takeWhile is_reasoning (dropWhile is_answer (payloads chunks)))
          \<Longrightarrow> response_text p \<noteq> []"
    by (meson payloads_nonempty set_dropWhileD set_takeWhileD)
  with runs have t: "thinking chunks \<noteq> []"
    unfolding thinking_def by (intro concat_texts_nonempty) auto
  have "\<And>p. p \<in> set (dropWhile is_reasoning (dropWhile is_answer (payloads chunks)))
          \<Longrightarrow> response_text p \<noteq> []"
    by (meson payloads_nonempty set_dropWhileD)
  with runs have a: "answering chunks \<noteq> []"
    unfolding answering_def by (intro concat_texts_nonempty) auto
  show ?thesis
    using t a by (simp only: shape occurrences_open_shape occurrences_close_shape) simp
qed

text \<open>
  C1 at the stream of reasoning "a" followed by answer "c".
\<close>

theorem C1_witness:
  "transcript [reasoning_chunk ''a'', answer_chunk ''c'' :: unit ChatCompletionChunk]
     = ''<think>a</think>c'' \<and>
   occurrences ''<think>'' (transcript [reasoning_chunk ''a'', answer_chunk ''c'' :: unit ChatCompletionChunk]) = 1"
  using C1_markers_inserted_once [of 0 1 "[reasoning_chunk ''a'', answer_chunk ''c'' :: unit ChatCompletionChunk]"]
  by (simp add: has_reasoning_def has_answer_def reasoning_chunk_def answer_chunk_def
      lead_in_def thinking_def answering_def payloads_def chunk_payloads_def texts_def
      is_answer_def is_reasoning_def)

text \<open>
  C1 as worded counts occurrences in the transcript, and the carried text is relayed
  unchanged: an answer that quotes the opening marker gives a transcript with two
  occurrences of it.
\<close>

theorem C1_counterexample:
  "has_reasoning ([reasoning_chunk ''a'', answer_chunk ''say <think>''] ! 0 :: unit ChatCompletionChunk) \<and>
   has_answer ([reasoning_chunk ''a'', answer_chunk ''say <think>''] ! 1 :: unit ChatCompletionChunk) \<and>
   transcript [reasoning_chunk ''a'', answer_chunk ''say <think>'' :: unit ChatCompletionChunk]
     = ''<think>a</think>say <think>'' \<and>
   occurrences ''<think>''
     (transcript [reasoning_chunk ''a'', answer_chunk ''say <think>'' :: unit ChatCompletionChunk]) = 2"
  by (simp add: transcript_def response_stream_def initial_state_def step_def reasoning_block_def
      content_block_def reasoning_chunk_def answer_chunk_def texts_def emitted_def
      has_reasoning_def has_answer_def)

text \<open>
  C2. Line 62 assigns the stored reasoning text where line 72 appends the stored answer
  text: after two reasoning chunks "a" and "b" the stored reasoning text is "b", while
  the reasoning responses yielded are "<think>a" and "b".
\<close>

theorem C2_reasoning_overwritten:
  "response_stream [reasoning_chunk ''a'', reasoning_chunk ''b'' :: unit ChatCompletionChunk] =
     Inr (\<lparr>stream_data = \<lparr>response_content = [], response_reasoning_content = Some ''b''\<rparr>,
           status = ''think'', console = []\<rparr>,
          [ModelResponse ReasoningYield ''<think>a'', ModelResponse ReasoningYield ''b''])"
  by (simp add: response_stream_def initial_state_def step_def reasoning_block_def
      content_block_def reasoning_chunk_def)

text \<open>
  C3. For the chunks carrying reasoning "a", reasoning "b" and answer "c", the stream
  yields exactly the three responses "<think>a", "b", "</think>c", in that order.
\<close>

theorem C3_scenario_reasoning_then_answer:
  "texts (emitted (response_stream
       [reasoning_chunk ''a'', reasoning_chunk ''b'', answer_chunk ''c'' :: unit ChatCompletionChunk]))
     = [''<think>a'', ''b'', ''</think>c'']"
  by (simp add: response_stream_def initial_state_def step_def reasoning_block_def
      content_block_def reasoning_chunk_def answer_chunk_def texts_def emitted_def)

text \<open>
  C4. The reasoning block changes \<^verbatim>\<open>status\<close> only from empty to "think", and only on
  non-empty reasoning text; the content block changes it only from "think" to "answer",
  and only on non-empty answer text. Along any stream the status never moves backwards.
  From "answer" on, every carried text is yielded as it is and the status stays "answer";
  a non-empty reasoning text arriving then is yielded without marker and stored.
\<close>

theorem C4_phase_monotonic:
  "status (fst (reasoning_block s d)) =
     (if status s = [] \<and> truthy (reasoning_content d) then ''think'' else status s) \<and>
   status (fst (content_block s d)) =
     (if status s = ''think'' \<and> truthy (content d) then ''answer'' else status s) \<and>
   (\<exists>s' evs. loop s chunks = Inr (s', evs) \<and> phase_rank (status s) \<le> phase_rank (status s')) \<and>
   (status s = ''answer'' \<longrightarrow>
      (\<exists>s'. loop s chunks = Inr (s', payloads chunks) \<and> status s' = ''answer'')) \<and>
   (status s = ''answer'' \<and> r \<noteq> [] \<longrightarrow>
      reasoning_block s (d\<lparr>reasoning_content := Str r\<rparr>) =
        (s\<lparr>stream_data := (stream_data s)\<lparr>response_reasoning_content := Some r\<rparr>\<rparr>,
         [ModelResponse ReasoningYield r]))"
proof -
  have a: "status (fst (reasoning_block s d)) =
     (if status s = [] \<and> truthy (reasoning_content d) then ''think'' else status s)"
    by (cases "reasoning_content d") (auto simp: reasoning_block_def)
  have b: "status (fst (content_block s d)) =
     (if status s = ''think'' \<and> truthy (content d) then ''answer'' else status s)"
    by (cases "content d") (auto simp: content_block_def)
  obtain s' where s': "loop s chunks = Inr (s', relay (status s) (payloads chunks))"
      "status s' = status_after (status s) (payloads chunks)"
    using loop_relay by blast
  have c: "\<exists>s' evs. loop s chunks = Inr (s', evs) \<and> phase_rank (status s) \<le> phase_rank (status s')"
    using s' phase_rank_status_after by auto
  have d: "status s = ''answer'' \<longrightarrow>
      (\<exists>s'. loop s chunks = Inr (s', payloads chunks) \<and> status s' = ''answer'')"
    using s' by (auto simp: relay_answer status_after_answer)
  have e: "status s = ''answer'' \<and> r \<noteq> [] \<longrightarrow>
      reasoning_block s (d\<lparr>reasoning_content := Str r\<rparr>) =
        (s\<lparr>stream_data := (stream_data s)\<lparr>response_reasoning_content := Some r\<rparr>\<rparr>,
         [ModelResponse ReasoningYield r])"
    by (auto simp: reasoning_block_def)
  from a b c d e show ?thesis by blast
qed

text \<open>
  C4 at a state that is answering and a chunk with reasoning "z".
\<close>

theorem C4_witness:
  "loop \<lparr>stream_data = \<lparr>response_content = ''</think>c'', response_reasoning_content = Some ''<think>a''\<rparr>,
         status = ''answer'', console = []\<rparr>
        [reasoning_chunk ''z'' :: unit ChatCompletionChunk]
     = Inr (\<lparr>stream_data = \<lparr>response_content = ''</think>c'', response_reasoning_content = Some ''z''\<rparr>,
             status = ''answer'', console = []\<rparr>,
            [ModelResponse ReasoningYield ''z''])"
  using C4_phase_monotonic [of
      "\<lparr>stream_data = \<lparr>response_content = ''</think>c'', response_reasoning_content = Some ''<think>a''\<rparr>,
         status = ''answer'', console = []\<rparr> :: unit loop_state"
      "\<lparr>reasoning_content = Str ''z'', content = NoAttr\<rparr>"
      "[reasoning_chunk ''z'']" "''z''"]
  by (simp add: step_def reasoning_block_def content_block_def reasoning_chunk_def)

text \<open>
  C5. In a stream where no chunk carries non-empty reasoning text, the responses are
  exactly the non-empty answer texts, unmodified and in order, so that the transcript is
  their concatenation and no marker is inserted. The single chunk with answer "hello"
  yields exactly "hello".
\<close>

theorem C5_no_reasoning_no_marker:
  "((\<forall>c\<in>set (chunks :: 'u ChatCompletionChunk list). \<not> has_reasoning c) \<longrightarrow>
      emitted (response_stream chunks) = payloads chunks \<and>
      (\<forall>p\<in>set (payloads chunks). origin p = ContentYield) \<and>
      transcript chunks = concat (texts (payloads chunks))) \<and>
   texts (emitted (response_stream [answer_chunk ''hello'' :: 'u ChatCompletionChunk])) = [''hello'']"
proof -
  have "emitted (response_stream chunks) = payloads chunks \<and>
      (\<forall>p\<in>set (payloads chunks). origin p = ContentYield) \<and>
      transcript chunks = concat (texts (payloads chunks))"
    if h: "\<forall>c\<in>set chunks. \<not> has_reasoning c"
  proof -
    have ans: "\<forall>p\<in>set (payloads chunks). is_answer p"
      using h by (rule no_reasoning_payloads)
    then have "relay [] (payloads chunks) = payloads chunks"
      using relay_only_answers by blast
    with ans show ?thesis
      by (simp add: emitted_response_stream transcript_def is_answer_def)
  qed
  moreover have "texts (emitted (response_stream [answer_chunk ''hello'' :: 'u ChatCompletionChunk]))
      = [''hello'']"
    by (simp add: response_stream_def initial_state_def step_def reasoning_block_def
        content_block_def answer_chunk_def texts_def emitted_def)
  ultimately show ?thesis by blast
qed

text \<open>
  C5 at a stream of two answers around a usage chunk.
\<close>

theorem C5_witness:
  "emitted (response_stream [answer_chunk ''x'', usage_chunk (), answer_chunk ''y''])
     = [ModelResponse ContentYield ''x'', ModelResponse ContentYield ''y'']"
  using C5_no_reasoning_no_marker [of "[answer_chunk ''x'', usage_chunk (), answer_chunk ''y'']"]
  by (simp add: has_reasoning_def answer_chunk_def usage_chunk_def payloads_def chunk_payloads_def)

text \<open>
  C5 as worded says the transcript contains no marker; an answer text that is the opening
  marker is relayed unchanged, so the transcript contains it.
\<close>

theorem C5_counterexample:
  "\<not> has_reasoning (answer_chunk ''<think>'' :: unit ChatCompletionChunk) \<and>
   transcript [answer_chunk ''<think>'' :: unit ChatCompletionChunk] = ''<think>'' \<and>
   occurrences ''<think>'' (transcript [answer_chunk ''<think>'' :: unit ChatCompletionChunk]) = 1"
  by (simp add: transcript_def response_stream_def initial_state_def step_def reasoning_block_def
      content_block_def answer_chunk_def texts_def emitted_def has_reasoning_def)

text \<open>
  C6. A missing attribute, \<^verbatim>\<open>None\<close> and the empty string all leave the state as it
  is and yield nothing, for the reasoning block and for the content block; a chunk whose
  first delta has neither text goes through the iteration without any effect. A non-empty
  text yields exactly one response. The chunks with reasoning "" and answer "x" yield
  exactly "x".
\<close>

theorem C6_empty_like_absent:
  "reasoning_block (s :: 'u loop_state) (d\<lparr>reasoning_content := NoAttr\<rparr>) = (s, []) \<and>
   reasoning_block s (d\<lparr>reasoning_content := NoneVal\<rparr>) = (s, []) \<and>
   reasoning_block s (d\<lparr>reasoning_content := Str []\<rparr>) = (s, []) \<and>
   content_block s (d\<lparr>content := NoAttr\<rparr>) = (s, []) \<and>
   content_block s (d\<lparr>content := NoneVal\<rparr>) = (s, []) \<and>
   content_block s (d\<lparr>content := Str []\<rparr>) = (s, []) \<and>
   (\<not> truthy (reasoning_content (delta ch)) \<and> \<not> truthy (content (delta ch)) \<longrightarrow>
      step s \<lparr>choices = ch # chs, usage = u\<rparr> = Inr (s, [])) \<and>
   (truthy (reasoning_content d) \<longrightarrow> length (snd (reasoning_block s d)) = 1) \<and>
   (truthy (content d) \<longrightarrow> length (snd (content_block s d)) = 1) \<and>
   texts (emitted (response_stream [reasoning_chunk [], answer_chunk ''x'' :: 'u ChatCompletionChunk]))
     = [''x'']"
proof -
  have rb: "reasoning_block s d' = (s, [])" if "\<not> truthy (reasoning_content d')" for d' and s :: "'u loop_state"
    using that by (cases "reasoning_content d'") (auto simp: reasoning_block_def)
  have cb: "content_block s d' = (s, [])" if "\<not> truthy (content d')" for d' and s :: "'u loop_state"
    using that by (cases "content d'") (auto simp: content_block_def)
  have st: "\<not> truthy (reasoning_content (delta ch)) \<and> \<not> truthy (content (delta ch)) \<longrightarrow>
      step s \<lparr>choices = ch # chs, usage = u\<rparr> = Inr (s, [])"
    by (simp add: step_def rb cb Let_def)
  have r1: "truthy (reasoning_content d) \<longrightarrow> length (snd (reasoning_block s d)) = 1"
    by (cases "reasoning_content d") (auto simp: reasoning_block_def)
  have c1: "truthy (content d) \<longrightarrow> length (snd (content_block s d)) = 1"
    by (cases "content d") (auto simp: content_block_def)
  have sc: "texts (emitted (response_stream [reasoning_chunk [], answer_chunk ''x'' :: 'u ChatCompletionChunk]))
     = [''x'']"
    by (simp add: response_stream_def initial_state_def step_def reasoning_block_def
        content_block_def reasoning_chunk_def answer_chunk_def texts_def emitted_def)
  show ?thesis
    using st r1 c1 sc by (simp add: rb cb)
qed

text \<open>
  C6 at the initial state, a delta with empty reasoning and \<^verbatim>\<open>None\<close> content, and a
  delta with both texts.
\<close>

theorem C6_witness:
  "step (initial_state :: unit loop_state)
     \<lparr>choices = [\<lparr>delta = \<lparr>reasoning_content = Str [], content = NoneVal\<rparr>\<rparr>], usage = None\<rparr>
     = Inr (initial_state, []) \<and>
   length (snd (reasoning_block (initial_state :: unit loop_state)
     \<lparr>reasoning_content = Str ''r'', content = Str ''a''\<rparr>)) = 1 \<and>
   length (snd (content_block (initial_state :: unit loop_state)
     \<lparr>reasoning_content = Str ''r'', content = Str ''a''\<rparr>)) = 1"
  using C6_empty_like_absent [of "initial_state :: unit loop_state"
      "\<lparr>reasoning_content = Str ''r'', content = Str ''a''\<rparr>"
      "\<lparr>delta = \<lparr>reasoning_content = Str [], content = NoneVal\<rparr>\<rparr>" "[]" None]
  by simp

text \<open>
  C7. A chunk without choices yields nothing and changes neither the stream data nor
  the status: the iteration only prints the heading and the usage payload. A stream of
  one usage chunk yields no response.
\<close>

theorem C7_usage_chunk_no_event:
  "(choices (c :: 'u ChatCompletionChunk) = [] \<longrightarrow>
      step s c = Inr (s\<lparr>console := console s @
                           [PrintStr (CHR 0x0A # ''Usage:''), PrintUsage (usage c)]\<rparr>, [])) \<and>
   response_stream [usage_chunk (u :: 'u)] =
     Inr (initial_state\<lparr>console := [PrintStr (CHR 0x0A # ''Usage:''), PrintUsage (Some u)]\<rparr>, [])"
  by (simp add: step_def response_stream_def usage_chunk_def initial_state_def)

text \<open>
  C7 at the initial state and a usage chunk with payload 7.
\<close>

theorem C7_witness:
  "step (initial_state :: nat loop_state) (usage_chunk 7) =
     Inr (initial_state\<lparr>console := [PrintStr (CHR 0x0A # ''Usage:''), PrintUsage (Some 7)]\<rparr>, [])"
  using C7_usage_chunk_no_event [of "usage_chunk 7" "initial_state :: nat loop_state" "7 :: nat"]
  by (simp add: usage_chunk_def initial_state_def)

text \<open>
  C8. Every iteration returns, and so does the loop on every finite stream: the
  \<^verbatim>\<open>IndexError\<close> of \<^verbatim>\<open>response.choices[0]\<close> is unreachable, since the index is taken only
  when \<^verbatim>\<open>choices\<close> is not empty, and a delta without either attribute passes through
  with no effect.
\<close>

theorem C8_never_rejects:
  "(\<exists>s' evs. step s c = Inr (s', evs)) \<and>
   (\<exists>s' evs. loop s chunks = Inr (s', evs)) \<and>
   (\<exists>s' evs. response_stream chunks = Inr (s', evs)) \<and>
   (choices c \<noteq> [] \<longrightarrow> getitem0 (choices c) = Inr (hd (choices c))) \<and>
   step s \<lparr>choices = [\<lparr>delta = \<lparr>reasoning_content = NoAttr, content = NoAttr\<rparr>\<rparr>], usage = u\<rparr>
     = Inr (s, [])"
proof -
  have 1: "\<exists>s' evs. step s c = Inr (s', evs)"
    by (simp add: step_total)
  have 2: "\<exists>s' evs. loop s chunks = Inr (s', evs)" for s :: "'a loop_state"
    using loop_relay [of s chunks] by blast
  have 3: "\<exists>s' evs. response_stream chunks = Inr (s', evs)"
    unfolding response_stream_def by (rule 2)
  have 4: "choices c \<noteq> [] \<longrightarrow> getitem0 (choices c) = Inr (hd (choices c))"
    by (cases "choices c") auto
  have 5: "step s \<lparr>choices = [\<lparr>delta = \<lparr>reasoning_content = NoAttr, content = NoAttr\<rparr>\<rparr>], usage = u\<rparr>
     = Inr (s, [])"
    by (simp add: step_def reasoning_block_def content_block_def)
  from 1 2 3 4 5 show ?thesis by blast
qed

text \<open>
  C8 at the initial state and a chunk with reasoning "a".
\<close>

theorem C8_witness:
  "getitem0 (choices (reasoning_chunk ''a'' :: unit ChatCompletionChunk)) =
     Inr \<lparr>delta = \<lparr>reasoning_content = Str ''a'', content = NoAttr\<rparr>\<rparr>"
  using C8_never_rejects [of initial_state "reasoning_chunk ''a'' :: unit ChatCompletionChunk" "[]" None]
  by (simp add: reasoning_chunk_def)

text \<open>
  C9. After any chunks without non-empty reasoning text the status is still empty and
  the answer texts were yielded as they are; a chunk with non-empty reasoning text
  arriving next has the opening marker put before its reasoning text.
\<close>

theorem C9_answers_do_not_start_phase:
  assumes "\<forall>c\<in>set pre. \<not> has_reasoning c"
    and "choices c = ch # chs" "reasoning_content (delta ch) = Str r" "r \<noteq> []"
  shows "\<exists>s1 s2 evs.
           response_stream pre = Inr (s1, payloads pre) \<and> status s1 = [] \<and>
           step s1 c = Inr (s2, ModelResponse ReasoningYield (''<think>'' @ r) # evs) \<and>
           response_stream (pre @ [c]) =
             Inr (s2, payloads pre @ ModelResponse ReasoningYield (''<think>'' @ r) # evs)"
proof -
  have ans: "\<forall>p\<in>set (payloads pre). is_answer p"
    using assms(1) by (rule no_reasoning_payloads)
  obtain s1 where s1: "loop (initial_state :: 'a loop_state) pre =
        Inr (s1, relay (status (initial_state :: 'a loop_state)) (payloads pre))"
      "status s1 = status_after (status (initial_state :: 'a loop_state)) (payloads pre)"
    using loop_relay by blast
  have init: "status (initial_state :: 'a loop_state) = []"
    by (simp add: initial_state_def)
  from s1 init relay_only_answers [OF ans]
  have pre: "loop initial_state pre = Inr (s1, payloads pre)" "status s1 = []"
    by simp_all
  obtain s2 where s2: "step s1 c = Inr (s2, relay (status s1) (chunk_payloads c))"
    using step_relay by blast
  have "chunk_payloads c =
      ModelResponse ReasoningYield r # field_payload ContentYield (content (delta ch))"
    using assms(2-4) by (simp add: chunk_payloads_def)
  with s2 pre(2) have step: "step s1 c =
      Inr (s2, ModelResponse ReasoningYield (''<think>'' @ r) #
               relay ''think'' (field_payload ContentYield (content (delta ch))))"
    by simp
  have "loop s1 [c] = Inr (s2, ModelResponse ReasoningYield (''<think>'' @ r) #
               relay ''think'' (field_payload ContentYield (content (delta ch))))"
    using step by simp
  from loop_append [OF pre(1) this] pre step show ?thesis
    by (auto simp: response_stream_def)
qed

text \<open>
  C9 at the stream of answers "x" and "y" followed by reasoning "r".
\<close>

theorem C9_witness:
  "response_stream [answer_chunk ''x'', answer_chunk ''y'', reasoning_chunk ''r'' :: unit ChatCompletionChunk]
     = Inr (\<lparr>stream_data = \<lparr>response_content = ''xy'', response_reasoning_content = Some ''<think>r''\<rparr>,
            status = ''think'', console = []\<rparr>,
           [ModelResponse ContentYield ''x'', ModelResponse ContentYield ''y'',
            ModelResponse ReasoningYield ''<think>r''])"
  using C9_answers_do_not_start_phase [of "[answer_chunk ''x'', answer_chunk ''y'' :: unit ChatCompletionChunk]"
      "reasoning_chunk ''r''" "\<lparr>delta = \<lparr>reasoning_content = Str ''r'', content = NoAttr\<rparr>\<rparr>" "[]" "''r''"]
  by (simp add: has_reasoning_def answer_chunk_def reasoning_chunk_def response_stream_def
      initial_state_def step_def reasoning_block_def content_block_def)

text \<open>
  C10. After any stream the stored reasoning text is the text of the last response
  yielded by the reasoning block, marker included when that response was the first, and
  \<^verbatim>\<open>None\<close> when the reasoning block yielded nothing.
\<close>

theorem C10_latest_reasoning_chunk:
  "\<exists>s evs. response_stream chunks = Inr (s, evs) \<and>
     response_reasoning_content (stream_data s) =
       (if filter is_reasoning evs = [] then None
        else Some (response_text (last (filter is_reasoning evs))))"
proof -
  obtain s evs where "loop initial_state chunks = Inr (s, evs)"
    "response_reasoning_content (stream_data s) =
       latest_reasoning (response_reasoning_content (stream_data (initial_state :: 'a loop_state))) evs"
    using loop_stream_data [of initial_state chunks] by blast
  then have "response_stream chunks = Inr (s, evs) \<and>
     response_reasoning_content (stream_data s) =
       (if filter is_reasoning evs = [] then None
        else Some (response_text (last (filter is_reasoning evs))))"
    by (simp add: response_stream_def initial_state_def latest_reasoning_last)
  then show ?thesis by blast
qed

text \<open>
  C10 at the stream of reasoning "a", reasoning "b" and answer "c".
\<close>

theorem C10_witness:
  "\<exists>s evs. response_stream [reasoning_chunk ''a'', reasoning_chunk ''b'',
       answer_chunk ''c'' :: unit ChatCompletionChunk] = Inr (s, evs) \<and>
     response_reasoning_content (stream_data s) = Some ''b''"
  using C10_latest_reasoning_chunk [of "[reasoning_chunk ''a'', reasoning_chunk ''b'',
       answer_chunk ''c'' :: unit ChatCompletionChunk]"]
  by (simp add: response_stream_def initial_state_def step_def reasoning_block_def
      content_block_def reasoning_chunk_def answer_chunk_def is_reasoning_def)

end
